theory Spec2Isabelle
  imports Main "HOL-Library.Multiset" "HOL-Library.Sublist"
begin

section \<open>Data model\<close>

text \<open>
  The catalog of \<^verbatim>\<open>data.js\<close> is an array of objects with five string fields. Strings
  are lists of characters; the characters are the code points below 256, which is enough
  for the four characters of the markup, the white space of \<^verbatim>\<open>trim\<close> and the letters
  of \<^verbatim>\<open>toLowerCase\<close> that the statements below are about.
\<close>

record fileObject =
  category :: string
  title :: string
  description :: string
  "file" :: string
  updated :: string

text \<open>
  A JavaScript number as the program meets it: a time value in milliseconds, a
  difference of two of them, or \<^verbatim>\<open>NaN\<close> (\<open>None\<close>). Time values are integers of
  magnitude at most \<open>8.64 * 10^15\<close>, so the sign of the floating-point difference of two
  of them is the sign of the exact one, and the sign is all that sorting reads.
\<close>

type_synonym number = "int option"

definition num_sub :: "number \<Rightarrow> number \<Rightarrow> number" where
  "num_sub x y = (case x of None \<Rightarrow> None | Some a \<Rightarrow> (case y of None \<Rightarrow> None | Some b \<Rightarrow> Some (a - b)))"

text \<open>
  What the program takes from the host engine and does not define itself: the parser
  behind \<^verbatim>\<open>new Date(str).getTime()\<close> (\<open>None\<close> when the text does not parse, the time
  value otherwise), \<^verbatim>\<open>toLocaleDateString("en-US", ...)\<close> on a valid time value, and
  \<^verbatim>\<open>String.prototype.localeCompare\<close>. They are parameters of the model.
\<close>

record platform =
  Date_getTime :: "string \<Rightarrow> number"
  toLocaleDateString :: "int \<Rightarrow> string"
  localeCompare :: "string \<Rightarrow> string \<Rightarrow> int"

section \<open>Helpers\<close>

definition dateValue :: "platform \<Rightarrow> string \<Rightarrow> number" where
  "dateValue P str = Date_getTime P str"

text \<open>
  \<^verbatim>\<open>toLocaleDateString\<close> of a date whose time value is \<^verbatim>\<open>NaN\<close> returns the text
  \<^verbatim>\<open>Invalid Date\<close>; it does not throw.
\<close>

definition formatDate :: "platform \<Rightarrow> string \<Rightarrow> string" where
  "formatDate P str =
     (case Date_getTime P (str @ ''T00:00:00'') of
        None \<Rightarrow> ''Invalid Date''
      | Some t \<Rightarrow> toLocaleDateString P t)"

text \<open>\<^verbatim>\<open>s.replace(/c/g, r)\<close> for a single character \<open>c\<close>: every occurrence, left to right.\<close>

definition replace_g :: "char \<Rightarrow> string \<Rightarrow> string \<Rightarrow> string" where
  "replace_g c r s = concat (map (\<lambda>x. if x = c then r else [x]) s)"

definition escHtml :: "string \<Rightarrow> string" where
  \<open>escHtml s =
     replace_g (CHR 0x22) ''&quot;''
       (replace_g CHR ''>'' ''&gt;''
          (replace_g CHR ''<'' ''&lt;''
             (replace_g CHR ''&'' ''&amp;'' s)))\<close>

section \<open>Data processing\<close>

subsection \<open>\<^verbatim>\<open>Array.prototype.sort\<close>\<close>

text \<open>
  The engine calls the comparison function and reads the sign of its result; a result
  of \<^verbatim>\<open>NaN\<close> counts as \<open>+0\<close> (ECMAScript, SortCompare).
\<close>

definition sortCompare :: "('a \<Rightarrow> 'a \<Rightarrow> number) \<Rightarrow> 'a \<Rightarrow> 'a \<Rightarrow> int" where
  "sortCompare comparefn x y = (case comparefn x y of None \<Rightarrow> 0 | Some v \<Rightarrow> v)"

text \<open>
  ECMAScript requires the sort to be stable. For a comparison function that is a
  consistent comparator (a total preorder on the elements) the result is therefore
  determined: the stable sorted arrangement. For any other comparison function the order
  is left to the engine. The model is the stable insertion sort: it returns the
  determined result in the first case and is one admissible engine in the second.
  Statements about an order are made for consistent comparators, or for arrays on
  which all comparisons are ties.
\<close>

fun insert_sorted :: "('a \<Rightarrow> 'a \<Rightarrow> number) \<Rightarrow> 'a \<Rightarrow> 'a list \<Rightarrow> 'a list" where
  "insert_sorted comparefn x [] = [x]"
| "insert_sorted comparefn x (y # ys) =
     (if sortCompare comparefn x y \<le> 0 then x # y # ys
      else y # insert_sorted comparefn x ys)"

definition array_sort :: "('a \<Rightarrow> 'a \<Rightarrow> number) \<Rightarrow> 'a list \<Rightarrow> 'a list" where
  "array_sort comparefn xs = foldr (insert_sorted comparefn) xs []"

subsection \<open>\<^verbatim>\<open>Map\<close>\<close>

text \<open>
  A \<^verbatim>\<open>Map\<close> iterates in insertion order, so it is a list of entries; \<^verbatim>\<open>set\<close> on a
  key that is present replaces the value and keeps the position. \<^verbatim>\<open>get\<close> on a key
  that is absent returns \<^verbatim>\<open>undefined\<close>, and calling a method on that throws.
\<close>

type_synonym 'v js_map = "(string \<times> 'v) list"

datatype error = TypeError

definition map_has :: "'v js_map \<Rightarrow> string \<Rightarrow> bool" where
  "map_has m k = (map_of m k \<noteq> None)"

definition map_get :: "'v js_map \<Rightarrow> string \<Rightarrow> 'v option" where
  "map_get m k = map_of m k"

fun map_set :: "'v js_map \<Rightarrow> string \<Rightarrow> 'v \<Rightarrow> 'v js_map" where
  "map_set [] k v = [(k, v)]"
| "map_set ((k', v') # m) k v = (if k' = k then (k, v) # m else (k', v') # map_set m k v)"

text \<open>\<^verbatim>\<open>new Map(entries)\<close>: the entries are set one after the other.\<close>

definition new_Map :: "(string \<times> 'v) list \<Rightarrow> 'v js_map" where
  "new_Map entries = foldl (\<lambda>m (k, v). map_set m k v) [] entries"

subsection \<open>\<^verbatim>\<open>groupByCategory\<close>\<close>

text \<open>
  The first loop: a bucket is created when a category is seen for the first time, and
  the record is pushed onto the array stored under its category.
\<close>

fun collect :: "fileObject list js_map \<Rightarrow> fileObject list \<Rightarrow> error + fileObject list js_map" where
  "collect m [] = Inr m"
| "collect m (f # fs) =
     (let m1 = (if \<not> map_has m (category f) then map_set m (category f) [] else m) in
      case map_get m1 (category f) of
        None \<Rightarrow> Inl TypeError
      | Some entries \<Rightarrow> collect (map_set m1 (category f) (entries @ [f])) fs)"

definition newest_first :: "platform \<Rightarrow> fileObject \<Rightarrow> fileObject \<Rightarrow> number" where
  "newest_first P a b = num_sub (dateValue P (updated b)) (dateValue P (updated a))"

definition by_key :: "platform \<Rightarrow> string \<times> 'v \<Rightarrow> string \<times> 'v \<Rightarrow> number" where
  "by_key P a b = Some (localeCompare P (fst a) (fst b))"

definition groupByCategory :: "platform \<Rightarrow> fileObject list \<Rightarrow> error + fileObject list js_map" where
  "groupByCategory P fileList =
     (case collect [] fileList of
        Inl e \<Rightarrow> Inl e
      | Inr m \<Rightarrow>
          (let sorted = map (\<lambda>(k, entries). (k, array_sort (newest_first P) entries)) m
           in Inr (new_Map (array_sort (by_key P) sorted))))"

section \<open>Rendering\<close>

definition renderCard :: "platform \<Rightarrow> fileObject \<Rightarrow> string" where
  \<open>renderCard P f =
     ''\<newline>      <a\<newline>        class="card"\<newline>        href="'' @ escHtml (file f) @
     ''"\<newline>        target="_blank"\<newline>        rel="noopener noreferrer"\<newline>        aria-label="Open '' @ escHtml (title f) @
     ''"\<newline>      >\<newline>        <div class="card-body">\<newline>          <p class="card-title">'' @ escHtml (title f) @
     ''</p>\<newline>          <p class="card-desc">'' @ escHtml (description f) @
     ''</p>\<newline>        </div>\<newline>        <time class="card-date" datetime="'' @ escHtml (updated f) @
     ''">\<newline>          '' @ formatDate P (updated f) @
     ''\<newline>        </time>\<newline>      </a>''\<close>

text \<open>\<^verbatim>\<open>parts.join(sep)\<close>.\<close>

fun join :: "string \<Rightarrow> string list \<Rightarrow> string" where
  "join sep [] = []"
| "join sep [x] = x"
| "join sep (x # y # ys) = x @ sep @ join sep (y # ys)"

definition renderCategory :: "platform \<Rightarrow> string \<Rightarrow> fileObject list \<Rightarrow> string" where
  \<open>renderCategory P categoryName entries =
     (let cards = join ''\<newline>'' (map (renderCard P) entries) in
      ''\<newline>      <section class="category" aria-labelledby="cat-'' @ escHtml categoryName @
      ''">\<newline>        <h2 class="category-title" id="cat-'' @ escHtml categoryName @
      ''">'' @ escHtml categoryName @
      ''</h2>\<newline>        <div class="card-list">\<newline>          '' @ cards @
      ''\<newline>        </div>\<newline>      </section>'')\<close>


text \<open>
  The page as \<^verbatim>\<open>renderAll\<close> sees it: the markup of the element \<^verbatim>\<open>#app\<close> (\<open>None\<close>
  when the page has no such element, and then assigning to \<^verbatim>\<open>innerHTML\<close> of
  \<^verbatim>\<open>null\<close> throws), and the callbacks handed to \<^verbatim>\<open>requestAnimationFrame\<close> that
  have not run yet. The only callback of the program is the one that staggers the cards.
\<close>

datatype frame_callback = StaggerCards

record page =
  app :: "string option"
  animationFrames :: "frame_callback list"

definition renderAll :: "platform \<Rightarrow> fileObject list \<Rightarrow> page \<Rightarrow> error + page" where
  \<open>renderAll P fileList pg =
     (case groupByCategory P fileList of
        Inl e \<Rightarrow> Inl e
      | Inr grouped \<Rightarrow>
          if length grouped = 0 then
            (case app pg of
               None \<Rightarrow> Inl TypeError
             | Some _ \<Rightarrow> Inr (pg\<lparr>app := Some ''<p class="empty-state">No documents found.</p>''\<rparr>))
          else
            (let html = foldl (\<lambda>html (name, entries). html @ renderCategory P name entries) [] grouped
             in case app pg of
                  None \<Rightarrow> Inl TypeError
                | Some _ \<Rightarrow>
                    Inr (pg\<lparr>app := Some html,
                            animationFrames := animationFrames pg @ [StaggerCards]\<rparr>)))\<close>

section \<open>Search\<close>

text \<open>
  \<^verbatim>\<open>toLowerCase\<close> on the code points below 256: the letters A to Z and the accented
  capitals from 192 to 222 (the multiplication sign 215 apart) move up by 32.
\<close>

definition lower_char :: "char \<Rightarrow> char" where
  "lower_char c =
     (let n = (of_char c :: nat) in
      if (65 \<le> n \<and> n \<le> 90) \<or> (192 \<le> n \<and> n \<le> 222 \<and> n \<noteq> 215)
      then char_of (n + 32) else c)"

definition toLowerCase :: "string \<Rightarrow> string" where
  "toLowerCase s = map lower_char s"

definition "includes" :: "string \<Rightarrow> string \<Rightarrow> bool" where
  "includes s q = sublist q s"

text \<open>The array \<^verbatim>\<open>files\<close> of \<^verbatim>\<open>data.js\<close> is a global of the script; here a parameter.\<close>

definition filterFiles :: "fileObject list \<Rightarrow> string \<Rightarrow> fileObject list" where
  "filterFiles files query =
     (if query = [] then files
      else
        (let q = toLowerCase query in
         filter (\<lambda>f. includes (toLowerCase (title f)) q \<or>
                     includes (toLowerCase (description f)) q \<or>
                     includes (toLowerCase (category f)) q) files))"

text \<open>
  \<^verbatim>\<open>trim\<close> removes white space and line terminators from both ends; below 256 these
  are the code points 9 to 13, 32 and 160.
\<close>

definition is_space :: "char \<Rightarrow> bool" where
  "is_space c = (let n = (of_char c :: nat) in (9 \<le> n \<and> n \<le> 13) \<or> n = 32 \<or> n = 160)"

definition trim :: "string \<Rightarrow> string" where
  "trim s = rev (dropWhile is_space (rev (dropWhile is_space s)))"

section \<open>Search controller\<close>
















section \<open>Notions used in the statements\<close>





definition bucket :: "fileObject list js_map \<Rightarrow> string \<Rightarrow> fileObject list" where
  "bucket m k = (case map_of m k of None \<Rightarrow> [] | Some e \<Rightarrow> e)"




section \<open>An engine and catalogues to evaluate the model on\<close>

text \<open>
  The values an engine in the UTC time zone returns on the dates that occur below, and
  the comparison of strings by code points, which is how \<^verbatim>\<open>localeCompare\<close> orders
  the category names that occur below. Any other text is taken not to parse.
\<close>

fun codePointCompare :: "string \<Rightarrow> string \<Rightarrow> int" where
  "codePointCompare [] [] = 0"
| "codePointCompare [] (y # ys) = - 1"
| "codePointCompare (x # xs) [] = 1"
| "codePointCompare (x # xs) (y # ys) =
     (if (of_char x :: nat) < of_char y then - 1
      else if (of_char y :: nat) < of_char x then 1
      else codePointCompare xs ys)"

definition utc_engine :: platform where
  "utc_engine =
     \<lparr>Date_getTime = map_of
        [(''2024-01-01'', 1704067200000), (''2024-01-01T00:00:00'', 1704067200000),
         (''2024-06-01'', 1717200000000), (''2024-06-01T00:00:00'', 1717200000000),
         (''2025-01-01'', 1735689600000), (''2025-01-01T00:00:00'', 1735689600000),
         (''2026-02-26'', 1772064000000), (''2026-02-26T00:00:00'', 1772064000000)],
      toLocaleDateString = (\<lambda>t.
         if t = 1704067200000 then ''Jan 1, 2024''
         else if t = 1717200000000 then ''Jun 1, 2024''
         else if t = 1735689600000 then ''Jan 1, 2025''
         else if t = 1772064000000 then ''Feb 26, 2026''
         else []),
      localeCompare = codePointCompare\<rparr>"

definition doc :: "string \<Rightarrow> string \<Rightarrow> string \<Rightarrow> fileObject" where
  "doc c t u = \<lparr>category = c, title = t, description = [], file = [], updated = u\<rparr>"

text \<open>The scenario of the specification: two documents in A, one in B.\<close>

definition scenario :: "fileObject list" where
  "scenario = [doc ''A'' ''X'' ''2024-01-01'', doc ''A'' ''Y'' ''2025-01-01'', doc ''B'' ''Z'' ''2024-06-01'']"

text \<open>The catalogue of \<^verbatim>\<open>data.js\<close>.\<close>

definition data_js_files :: "fileObject list" where
  \<open>data_js_files =
     [\<lparr>category = ''Data Analysis'',
       title = ''Understanding core principles of data analysis'',
       description = ''Short explanation of vectorization, normalization and outlier detections, including example Python code blocks and scientific formulas. It's also good for beginners in Python.'',
       file = ''pdfs/Vectorization-Normalization-OutliersDetection.pdf'',
       updated = ''2026-02-26''\<rparr>]\<close>


text \<open>A document whose date does not parse, before one whose date does.\<close>

definition undated :: "fileObject list" where
  "undated = [doc ''A'' ''X'' ''soon'', doc ''A'' ''Y'' ''2025-01-01'']"

text \<open>A page that shows an earlier render, and a page at load time with a search field.\<close>

definition stale_page :: page where
  \<open>stale_page = \<lparr>app = Some ''<section class="category">stale</section>'',
                  animationFrames = [StaggerCards]\<rparr>\<close>



section \<open>Escaping\<close>






































section \<open>Sorting\<close>

lemma mset_insert_sorted: "mset (insert_sorted cf x xs) = add_mset x (mset xs)"
  by (induction xs) simp_all

lemma mset_array_sort: "mset (array_sort cf xs) = mset xs"
  unfolding array_sort_def by (induction xs) (simp_all add: mset_insert_sorted)

lemma set_array_sort: "set (array_sort cf xs) = set xs"
  by (metis mset_array_sort set_mset_mset)

lemma length_array_sort: "length (array_sort cf xs) = length xs"
  by (metis mset_array_sort size_mset)






section \<open>Maps\<close>

lemma map_of_map_set: "map_of (map_set m k v) = (map_of m)(k \<mapsto> v)"
  by (induction m) auto

lemma keys_map_set:
  "map fst (map_set m k v) = (if k \<in> set (map fst m) then map fst m else map fst m @ [k])"
  by (induction m) force+

lemma distinct_map_set: "distinct (map fst m) \<Longrightarrow> distinct (map fst (map_set m k v))"
  by (simp add: keys_map_set)

lemma map_set_fresh: "k \<notin> set (map fst m) \<Longrightarrow> map_set m k v = m @ [(k, v)]"
  by (induction m) auto

lemma foldl_map_set:
  "distinct (map fst (m @ es)) \<Longrightarrow> foldl (\<lambda>m (k, v). map_set m k v) m es = m @ es"
proof (induction es arbitrary: m)
  case Nil
  then show ?case by simp
next
  case (Cons e es)
  obtain k v where e: "e = (k, v)" by (cases e)
  have "map_set m k v = m @ [(k, v)]"
    using Cons.prems e by (intro map_set_fresh) auto
  moreover have "distinct (map fst ((m @ [(k, v)]) @ es))"
    using Cons.prems e by simp
  ultimately show ?case using Cons.IH [of "m @ [(k, v)]"] e by simp
qed

lemma new_Map_distinct: "distinct (map fst es) \<Longrightarrow> new_Map es = es"
  using foldl_map_set [of "[]" es] by (simp add: new_Map_def)

lemma mset_concat_map_set_push:
  "map_of m k = Some e \<Longrightarrow>
   mset (concat (map snd (map_set m k (e @ [x])))) = add_mset x (mset (concat (map snd m)))"
  by (induction m) (auto split: if_splits)

section \<open>Grouping\<close>

lemma collect_spec:
  "distinct (map fst m) \<Longrightarrow>
   \<exists>m'. collect m fs = Inr m' \<and> distinct (map fst m') \<and>
        (\<forall>k. map_of m' k =
           (if k \<in> category ` set fs
            then Some (bucket m k @ filter (\<lambda>f. category f = k) fs)
            else map_of m k)) \<and>
        mset (concat (map snd m')) = mset (concat (map snd m)) + mset fs"
proof (induction fs arbitrary: m)
  case Nil
  then show ?case by simp
next
  case (Cons f fs)
  define k0 where "k0 = category f"
  define m1 where "m1 = (if \<not> map_has m k0 then map_set m k0 [] else m)"
  define m2 where "m2 = map_set m1 k0 (bucket m k0 @ [f])"
  have d1: "distinct (map fst m1)"
    using Cons.prems by (simp add: m1_def distinct_map_set)
  have get1: "map_of m1 k0 = Some (bucket m k0)"
    by (auto simp: m1_def map_has_def map_of_map_set bucket_def)
  have other1: "map_of m1 k = map_of m k" if "k \<noteq> k0" for k
    using that by (simp add: m1_def map_of_map_set)
  have ms1: "mset (concat (map snd m1)) = mset (concat (map snd m))"
  proof (cases "map_has m k0")
    case True
    then show ?thesis by (simp add: m1_def)
  next
    case False
    then have "k0 \<notin> set (map fst m)"
      by (simp add: map_has_def map_of_eq_None_iff)
    then show ?thesis using False by (simp add: m1_def map_set_fresh)
  qed
  have d2: "distinct (map fst m2)"
    using d1 by (simp add: m2_def distinct_map_set)
  have of2: "map_of m2 = (map_of m1)(k0 \<mapsto> bucket m k0 @ [f])"
    by (simp add: m2_def map_of_map_set)
  have ms2: "mset (concat (map snd m2)) = add_mset f (mset (concat (map snd m)))"
    using mset_concat_map_set_push [OF get1, of f] ms1 by (simp add: m2_def)
  have "collect m (f # fs) =
        (case map_get m1 k0 of
           None \<Rightarrow> Inl TypeError
         | Some entries \<Rightarrow> collect (map_set m1 k0 (entries @ [f])) fs)"
    unfolding m1_def k0_def by (simp add: Let_def)
  then have step: "collect m (f # fs) = collect m2 fs"
    by (simp add: get1 map_get_def m2_def)
  from Cons.IH [OF d2] obtain m' where m':
    "collect m2 fs = Inr m'" "distinct (map fst m')"
    "\<And>k. map_of m' k =
       (if k \<in> category ` set fs
        then Some (bucket m2 k @ filter (\<lambda>f. category f = k) fs)
        else map_of m2 k)"
    "mset (concat (map snd m')) = mset (concat (map snd m2)) + mset fs"
    by blast
  have b2: "bucket m2 k = (if k = k0 then bucket m k0 @ [f] else bucket m k)" for k
    by (simp add: bucket_def of2 other1)
  have "map_of m' k =
       (if k \<in> category ` set (f # fs)
        then Some (bucket m k @ filter (\<lambda>f. category f = k) (f # fs))
        else map_of m k)" for k
  proof (cases "k = k0")
    case True
    have "filter (\<lambda>f. category f = k0) fs = []" if "k0 \<notin> category ` set fs"
      using that by (auto simp: filter_empty_conv)
    then show ?thesis
      using True by (auto simp: m'(3) b2 of2 k0_def)
  next
    case False
    then show ?thesis
      by (auto simp: m'(3) b2 of2 other1 k0_def)
  qed
  then show ?case
    using m'(1,2,4) step ms2 by simp
qed

lemma collect_empty:
  "\<exists>m. collect [] fs = Inr m \<and> distinct (map fst m) \<and>
       set (map fst m) = category ` set fs \<and>
       (\<forall>(k, es)\<in>set m. es = filter (\<lambda>f. category f = k) fs) \<and>
       mset (concat (map snd m)) = mset fs"
proof -
  from collect_spec [of "[]" fs] obtain m where m:
    "collect [] fs = Inr m" "distinct (map fst m)"
    "\<And>k. map_of m k =
       (if k \<in> category ` set fs then Some (filter (\<lambda>f. category f = k) fs) else None)"
    "mset (concat (map snd m)) = mset fs"
    by (auto simp: bucket_def)
  have "set (map fst m) = category ` set fs"
  proof -
    have "dom (map_of m) = category ` set fs"
      by (auto simp: m(3) dom_def)
    then show ?thesis by (simp add: dom_map_of_conv_image_fst)
  qed
  moreover have "es = filter (\<lambda>f. category f = k) fs" if "(k, es) \<in> set m" for k es
  proof -
    have "map_of m k = Some es" using that m(2) by simp
    then show ?thesis by (simp add: m(3) split: if_splits)
  qed
  ultimately show ?thesis using m(1,2,4) by blast
qed

lemma keys_sorted_values:
  "map fst (map (\<lambda>(k, es). (k, h es)) m) = map fst m"
  by (induction m) auto

lemma keys_array_sort: "mset (map fst (array_sort cf xs)) = mset (map fst xs)"
  by (simp add: mset_array_sort)

lemma keys_group:
  "mset (map fst (array_sort cf (map (\<lambda>(k, es). (k, h es)) m))) = mset (map fst m)"
  by (simp only: keys_array_sort keys_sorted_values)

lemma in_sorted_entries:
  "(k, es') \<in> set (array_sort cf (map (\<lambda>(k, es). (k, h es)) m)) \<longleftrightarrow>
   (\<exists>es. (k, es) \<in> set m \<and> es' = h es)"
  by (auto simp: set_array_sort)

lemma mset_concat_cong:
  "mset xs = mset ys \<Longrightarrow> mset (concat (map f xs)) = mset (concat (map f ys))"
proof -
  assume "mset xs = mset ys"
  then have "sum_mset (image_mset (mset \<circ> f) (mset xs)) = sum_mset (image_mset (mset \<circ> f) (mset ys))"
    by simp
  then show ?thesis
    by (simp add: mset_concat sum_mset_sum_list flip: mset_map)
qed

lemma mset_concat_sorted_values:
  "mset (concat (map snd (map (\<lambda>(k, es). (k, array_sort cf es)) m))) = mset (concat (map snd m))"
  by (induction m) (auto simp: mset_array_sort)

text \<open>
  What \<^verbatim>\<open>groupByCategory\<close> returns: it never throws; the keys are the categories of
  the input, each once; the bucket of a category is the sorted array of the records of
  that category, taken in input order; the entries are sorted by key.
\<close>

lemma groupByCategory_buckets:
  "\<exists>g. groupByCategory P fs = Inr g \<and>
       distinct (map fst g) \<and>
       set (map fst g) = category ` set fs \<and>
       (\<forall>(k, es')\<in>set g. es' = array_sort (newest_first P) (filter (\<lambda>f. category f = k) fs)) \<and>
       mset (concat (map snd g)) = mset fs \<and>
       (\<exists>m. g = array_sort (by_key P) m \<and> set (map fst m) = category ` set fs)"
proof -
  from collect_empty [of fs] obtain m where m:
    "collect [] fs = Inr m" "distinct (map fst m)"
    "set (map fst m) = category ` set fs"
    "\<forall>(k, es)\<in>set m. es = filter (\<lambda>f. category f = k) fs"
    "mset (concat (map snd m)) = mset fs"
    by blast
  let ?sorted = "map (\<lambda>(k, es). (k, array_sort (newest_first P) es)) m"
  let ?g = "array_sort (by_key P) ?sorted"
  have keys: "mset (map fst ?g) = mset (map fst m)"
    by (rule keys_group)
  have dist: "distinct (map fst ?g)"
    using keys m(2) by (metis mset_eq_imp_distinct_iff)
  then have "new_Map ?g = ?g"
    by (rule new_Map_distinct)
  then have g: "groupByCategory P fs = Inr ?g"
    by (simp add: groupByCategory_def m(1))
  have ks: "set (map fst ?g) = category ` set fs"
    using keys m(3) by (metis set_mset_mset)
  have "es' = array_sort (newest_first P) (filter (\<lambda>f. category f = k) fs)"
    if "(k, es') \<in> set ?g" for k es'
  proof -
    from that obtain es where "(k, es) \<in> set m" "es' = array_sort (newest_first P) es"
      unfolding in_sorted_entries by blast
    then show ?thesis using m(4) by auto
  qed
  then have bs: "\<forall>(k, es')\<in>set ?g.
      es' = array_sort (newest_first P) (filter (\<lambda>f. category f = k) fs)"
    by blast
  have ms: "mset (concat (map snd ?g)) = mset fs"
  proof -
    have "mset (concat (map snd ?g)) = mset (concat (map snd ?sorted))"
      by (rule mset_concat_cong) (rule mset_array_sort)
    then show ?thesis by (simp only: mset_concat_sorted_values m(5))
  qed
  have "set (map fst ?sorted) = category ` set fs"
    using m(3) by (simp only: keys_sorted_values)
  then have ex: "\<exists>m. ?g = array_sort (by_key P) m \<and> set (map fst m) = category ` set fs"
    by blast
  show ?thesis
    by (intro exI [of _ ?g] conjI g dist ks bs ms ex)
qed

lemma groupByCategory_Nil: "groupByCategory P [] = Inr []"
  by (simp add: groupByCategory_def array_sort_def new_Map_def)

lemma groupByCategory_scenario:
  "groupByCategory utc_engine scenario =
     Inr [(''A'', [doc ''A'' ''Y'' ''2025-01-01'', doc ''A'' ''X'' ''2024-01-01'']),
          (''B'', [doc ''B'' ''Z'' ''2024-06-01''])]"
  by code_simp


text \<open>
  Claim C7. For every list of records, \<^verbatim>\<open>groupByCategory\<close> partitions the list by
  category: the keys are the categories of the input, each once, the bucket of a key
  holds exactly the records of that category, as many times as the input does, and all
  buckets together are a permutation of the input.
\<close>

theorem partition_by_category:
  "\<exists>g. groupByCategory P fs = Inr g \<and>
       distinct (map fst g) \<and>
       set (map fst g) = category ` set fs \<and>
       (\<forall>(k, es)\<in>set g. mset es = filter_mset (\<lambda>f. category f = k) (mset fs)) \<and>
       mset (concat (map snd g)) = mset fs"
proof -
  from groupByCategory_buckets [of P fs] obtain g where g:
    "groupByCategory P fs = Inr g" "distinct (map fst g)"
    "set (map fst g) = category ` set fs"
    "\<forall>(k, es')\<in>set g. es' = array_sort (newest_first P) (filter (\<lambda>f. category f = k) fs)"
    "mset (concat (map snd g)) = mset fs"
    by blast
  have ms: "\<forall>(k, es)\<in>set g. mset es = filter_mset (\<lambda>f. category f = k) (mset fs)"
    using g(4) by (auto simp: mset_array_sort)
  show ?thesis
    by (intro exI [of _ g] conjI g(1,2,3,5) ms)
qed

theorem partition_by_category_witness:
  "groupByCategory utc_engine scenario =
     Inr [(''A'', [doc ''A'' ''Y'' ''2025-01-01'', doc ''A'' ''X'' ''2024-01-01'']),
          (''B'', [doc ''B'' ''Z'' ''2024-06-01''])] \<and>
   mset [doc ''A'' ''Y'' ''2025-01-01'', doc ''A'' ''X'' ''2024-01-01''] =
     filter_mset (\<lambda>f. category f = ''A'') (mset scenario) \<and>
   mset (concat (map snd
     [(''A'', [doc ''A'' ''Y'' ''2025-01-01'', doc ''A'' ''X'' ''2024-01-01'']),
      (''B'', [doc ''B'' ''Z'' ''2024-06-01''])])) = mset scenario"
proof -
  let ?G = "[(''A'', [doc ''A'' ''Y'' ''2025-01-01'', doc ''A'' ''X'' ''2024-01-01'']),
             (''B'', [doc ''B'' ''Z'' ''2024-06-01''])]"
  from partition_by_category [of utc_engine scenario] obtain g where g:
    "groupByCategory utc_engine scenario = Inr g"
    "\<forall>(k, es)\<in>set g. mset es = filter_mset (\<lambda>f. category f = k) (mset scenario)"
    "mset (concat (map snd g)) = mset scenario"
    by blast
  have eq: "g = ?G"
    using g(1) by (simp add: groupByCategory_scenario)
  have "(''A'', [doc ''A'' ''Y'' ''2025-01-01'', doc ''A'' ''X'' ''2024-01-01'']) \<in> set g"
    unfolding eq by simp
  with g(2) have "mset [doc ''A'' ''Y'' ''2025-01-01'', doc ''A'' ''X'' ''2024-01-01''] =
     filter_mset (\<lambda>f. category f = ''A'') (mset scenario)"
    by blast
  then show ?thesis
    using g(1,3) unfolding eq by (intro conjI)
qed

lemma foldl_html:
  "foldl (\<lambda>html (name, entries). html @ h name entries) acc g =
   acc @ concat (map (\<lambda>(name, entries). h name entries) g)"
  by (induction g arbitrary: acc) auto

lemma renderAll_nonempty:
  assumes "groupByCategory P fs = Inr g" "g \<noteq> []"
  shows "renderAll P fs pg =
     (case app pg of
        None \<Rightarrow> Inl TypeError
      | Some _ \<Rightarrow>
          Inr (pg\<lparr>app := Some (concat (map (\<lambda>(name, entries). renderCategory P name entries) g)),
                  animationFrames := animationFrames pg @ [StaggerCards]\<rparr>))"
  using assms by (simp add: renderAll_def foldl_html)

text \<open>
  Claim C10. For every list of records, every key of the grouping maps to a bucket that
  is not empty; and when the grouping is not empty the markup that \<^verbatim>\<open>renderAll\<close>
  mounts is one section for each entry of the grouping, so no section is without cards.
\<close>

theorem no_empty_bucket:
  "\<exists>g. groupByCategory P fs = Inr g \<and>
       (\<forall>(k, es)\<in>set g. es \<noteq> []) \<and>
       (g \<noteq> [] \<longrightarrow>
          renderAll P fs pg =
            (case app pg of
               None \<Rightarrow> Inl TypeError
             | Some _ \<Rightarrow>
                 Inr (pg\<lparr>app := Some (concat (map (\<lambda>(name, entries). renderCategory P name entries) g)),
                         animationFrames := animationFrames pg @ [StaggerCards]\<rparr>)))"
proof -
  from groupByCategory_buckets [of P fs] obtain g where g:
    "groupByCategory P fs = Inr g"
    "set (map fst g) = category ` set fs"
    "\<forall>(k, es')\<in>set g. es' = array_sort (newest_first P) (filter (\<lambda>f. category f = k) fs)"
    by blast
  have "es \<noteq> []" if "(k, es) \<in> set g" for k es
  proof -
    have "k \<in> category ` set fs"
      using that g(2) by force
    then have "filter (\<lambda>f. category f = k) fs \<noteq> []"
      by (auto simp: filter_empty_conv)
    moreover have "length es = length (filter (\<lambda>f. category f = k) fs)"
      using that g(3) by (auto simp: length_array_sort)
    ultimately show ?thesis by auto
  qed
  then have ne: "\<forall>(k, es)\<in>set g. es \<noteq> []" by blast
  show ?thesis
    by (intro exI [of _ g] conjI impI g(1) ne renderAll_nonempty [OF g(1)])
qed

theorem no_empty_bucket_witness:
  "groupByCategory utc_engine scenario =
     Inr [(''A'', [doc ''A'' ''Y'' ''2025-01-01'', doc ''A'' ''X'' ''2024-01-01'']),
          (''B'', [doc ''B'' ''Z'' ''2024-06-01''])] \<and>
   [doc ''B'' ''Z'' ''2024-06-01''] \<noteq> [] \<and>
   renderAll utc_engine scenario stale_page =
     Inr (stale_page
       \<lparr>app := Some (concat (map (\<lambda>(name, entries). renderCategory utc_engine name entries)
            [(''A'', [doc ''A'' ''Y'' ''2025-01-01'', doc ''A'' ''X'' ''2024-01-01'']),
             (''B'', [doc ''B'' ''Z'' ''2024-06-01''])])),
        animationFrames := animationFrames stale_page @ [StaggerCards]\<rparr>)"
proof -
  let ?G = "[(''A'', [doc ''A'' ''Y'' ''2025-01-01'', doc ''A'' ''X'' ''2024-01-01'']),
             (''B'', [doc ''B'' ''Z'' ''2024-06-01''])]"
  from no_empty_bucket [of utc_engine scenario stale_page] obtain g where g:
    "groupByCategory utc_engine scenario = Inr g"
    "\<forall>(k, es)\<in>set g. es \<noteq> []"
    "g \<noteq> [] \<longrightarrow>
       renderAll utc_engine scenario stale_page =
         (case app stale_page of
            None \<Rightarrow> Inl TypeError
          | Some _ \<Rightarrow>
              Inr (stale_page
                \<lparr>app := Some (concat (map (\<lambda>(name, entries). renderCategory utc_engine name entries) g)),
                 animationFrames := animationFrames stale_page @ [StaggerCards]\<rparr>))"
    by blast
  have eq: "g = ?G"
    using g(1) by (simp add: groupByCategory_scenario)
  have "(''B'', [doc ''B'' ''Z'' ''2024-06-01'']) \<in> set g"
    unfolding eq by simp
  with g(2) have ne: "[doc ''B'' ''Z'' ''2024-06-01''] \<noteq> []"
    by blast
  have "g \<noteq> []" unfolding eq by simp
  moreover have "\<exists>old. app stale_page = Some old"
    by (simp add: stale_page_def)
  ultimately have "renderAll utc_engine scenario stale_page =
     Inr (stale_page
       \<lparr>app := Some (concat (map (\<lambda>(name, entries). renderCategory utc_engine name entries) g)),
        animationFrames := animationFrames stale_page @ [StaggerCards]\<rparr>)"
    using g(3) by auto
  then show ?thesis
    using g(1) ne unfolding eq by (intro conjI)
qed













section \<open>Filtering\<close>

text \<open>
  Claim C3. For every list of records and every query \<open>q\<close>, every record that
  \<^verbatim>\<open>filterFiles\<close> returns contains the lower-cased \<open>q\<close> as a substring of its
  lower-cased title, description or category; the result is a subsequence of the input,
  so it keeps the order of the input and is not longer.
\<close>

theorem filter_sound:
  "(\<forall>f\<in>set (filterFiles fs q).
      sublist (toLowerCase q) (toLowerCase (title f)) \<or>
      sublist (toLowerCase q) (toLowerCase (description f)) \<or>
      sublist (toLowerCase q) (toLowerCase (category f))) \<and>
   subseq (filterFiles fs q) fs \<and>
   length (filterFiles fs q) \<le> length fs"
  by (auto simp: filterFiles_def includes_def Let_def toLowerCase_def)

lemma filter_python: "filterFiles data_js_files ''python'' = data_js_files"
  by code_simp

theorem filter_sound_witness:
  "filterFiles data_js_files ''python'' = data_js_files \<and>
   hd data_js_files \<in> set (filterFiles data_js_files ''python'') \<and>
   (sublist (toLowerCase ''python'') (toLowerCase (title (hd data_js_files))) \<or>
    sublist (toLowerCase ''python'') (toLowerCase (description (hd data_js_files))) \<or>
    sublist (toLowerCase ''python'') (toLowerCase (category (hd data_js_files)))) \<and>
   length (filterFiles data_js_files ''python'') \<le> length data_js_files"
proof -
  have m: "hd data_js_files \<in> set (filterFiles data_js_files ''python'')"
    unfolding filter_python by (simp add: data_js_files_def)
  note s = filter_sound [of data_js_files "''python''"]
  from s m have
   "sublist (toLowerCase ''python'') (toLowerCase (title (hd data_js_files))) \<or>
    sublist (toLowerCase ''python'') (toLowerCase (description (hd data_js_files))) \<or>
    sublist (toLowerCase ''python'') (toLowerCase (category (hd data_js_files)))"
    by blast
  moreover from s have "length (filterFiles data_js_files ''python'') \<le> length data_js_files"
    by blast
  ultimately show ?thesis
    using m filter_python by (intro conjI)
qed

lemma trim_blank: "\<forall>c\<in>set q. is_space c \<Longrightarrow> trim q = []"
proof -
  assume "\<forall>c\<in>set q. is_space c"
  then have "dropWhile is_space q = []" by simp
  then show ?thesis by (simp only: trim_def rev.simps dropWhile.simps)
qed

lemma three_spaces: "\<forall>c\<in>set ''   ''. is_space c"
  by code_simp

text \<open>
  Claim C4, as the code has it. \<^verbatim>\<open>filterFiles\<close> returns the list unchanged for the
  empty query. It does not trim: for the query of three spaces it returns the records
  that contain three spaces in a row. A query of white space only gives the list
  unchanged once it is trimmed, which is what the search controller does before it
  calls \<^verbatim>\<open>filterFiles\<close>.
\<close>

theorem blank_query_identity:
  "filterFiles fs [] = fs \<and>
   filterFiles fs (trim ''   '') = fs \<and>
   ((\<forall>c\<in>set q. is_space c) \<longrightarrow> filterFiles fs (trim q) = fs) \<and>
   filterFiles fs ''   '' =
     filter (\<lambda>f. sublist ''   '' (toLowerCase (title f)) \<or>
                 sublist ''   '' (toLowerCase (description f)) \<or>
                 sublist ''   '' (toLowerCase (category f))) fs"
proof -
  have "trim ''   '' = []"
    by (rule trim_blank [OF three_spaces])
  moreover have "toLowerCase ''   '' = ''   ''"
    by code_simp
  ultimately show ?thesis
    by (simp add: trim_blank filterFiles_def includes_def Let_def)
qed

theorem blank_query_identity_witness:
  "list_all is_space ''   '' \<and> filterFiles data_js_files (trim ''   '') = data_js_files"
proof -
  have "filterFiles data_js_files (trim ''   '') = data_js_files"
    using blank_query_identity [of data_js_files "''   ''"] three_spaces by blast
  moreover have "list_all is_space ''   ''"
    using three_spaces by (simp only: list_all_iff)
  ultimately show ?thesis by (intro conjI)
qed

theorem blank_query_counterexample:
  "filterFiles data_js_files ''   '' = [] \<and> filterFiles data_js_files ''   '' \<noteq> data_js_files"
  by code_simp

section \<open>Dates that do not parse\<close>

lemma renderAll_total:
  "app pg \<noteq> None \<Longrightarrow> \<exists>pg'. renderAll P fs pg = Inr pg'"
  using groupByCategory_buckets [of P fs]
  by (auto simp: renderAll_def split: option.splits)

text \<open>
  Claim C5, as the code has it. Grouping never throws, and rendering does not throw
  when the page has the host element, whatever the dates are. A record whose date does
  not parse has the sort key \<^verbatim>\<open>NaN\<close>: the comparison with any other record counts as
  a tie, so the record is not ranked as the oldest. The date formatter shows the text
  \<^verbatim>\<open>Invalid Date\<close> for a date that does not parse, not the raw text.
\<close>

theorem malformed_date_policy:
  "(\<exists>g. groupByCategory P fs = Inr g) \<and>
   (app pg \<noteq> None \<longrightarrow> (\<exists>pg'. renderAll P fs pg = Inr pg')) \<and>
   (dateValue P (updated f) = None \<longrightarrow>
      sortCompare (newest_first P) f x = 0 \<and> sortCompare (newest_first P) x f = 0) \<and>
   (Date_getTime P (s @ ''T00:00:00'') = None \<longrightarrow> formatDate P s = ''Invalid Date'')"
proof -
  have "\<exists>g. groupByCategory P fs = Inr g"
    using groupByCategory_buckets [of P fs] by blast
  moreover have "app pg \<noteq> None \<longrightarrow> (\<exists>pg'. renderAll P fs pg = Inr pg')"
    using renderAll_total by blast
  moreover have "dateValue P (updated f) = None \<longrightarrow>
      sortCompare (newest_first P) f x = 0 \<and> sortCompare (newest_first P) x f = 0"
    by (simp add: sortCompare_def newest_first_def num_sub_def split: option.splits)
  moreover have "Date_getTime P (s @ ''T00:00:00'') = None \<longrightarrow> formatDate P s = ''Invalid Date''"
    by (simp add: formatDate_def)
  ultimately show ?thesis by (intro conjI)
qed

lemma soon_unparsed:
  "dateValue utc_engine (updated (doc ''A'' ''X'' ''soon'')) = None"
  "Date_getTime utc_engine (''soon'' @ ''T00:00:00'') = None"
  "app stale_page \<noteq> None"
  by code_simp+

theorem malformed_date_policy_witness:
  "dateValue utc_engine (updated (doc ''A'' ''X'' ''soon'')) = None \<and>
   Date_getTime utc_engine (''soon'' @ ''T00:00:00'') = None \<and>
   app stale_page \<noteq> None \<and>
   (\<exists>g. groupByCategory utc_engine undated = Inr g) \<and>
   (\<exists>pg'. renderAll utc_engine undated stale_page = Inr pg') \<and>
   sortCompare (newest_first utc_engine) (doc ''A'' ''X'' ''soon'') (doc ''A'' ''Y'' ''2025-01-01'') = 0 \<and>
   sortCompare (newest_first utc_engine) (doc ''A'' ''Y'' ''2025-01-01'') (doc ''A'' ''X'' ''soon'') = 0 \<and>
   formatDate utc_engine ''soon'' = ''Invalid Date''"
  using malformed_date_policy [of utc_engine undated stale_page "doc ''A'' ''X'' ''soon''"
      "doc ''A'' ''Y'' ''2025-01-01''" "''soon''"] soon_unparsed
  by blast

theorem malformed_date_counterexample:
  "dateValue utc_engine ''soon'' = None \<and>
   groupByCategory utc_engine [doc ''A'' ''X'' ''soon'', doc ''A'' ''Y'' ''2025-01-01''] =
     Inr [(''A'', [doc ''A'' ''X'' ''soon'', doc ''A'' ''Y'' ''2025-01-01''])] \<and>
   formatDate utc_engine ''soon'' = ''Invalid Date'' \<and>
   formatDate utc_engine ''soon'' \<noteq> ''soon''"
  by code_simp

section \<open>The empty state\<close>

lemma groupByCategory_eq_Nil: "groupByCategory P fs = Inr [] \<longleftrightarrow> fs = []"
proof
  assume "groupByCategory P fs = Inr []"
  with groupByCategory_buckets [of P fs] have "category ` set fs = {}"
    by auto
  then show "fs = []" by simp
next
  assume "fs = []"
  then show "groupByCategory P fs = Inr []" by (simp add: groupByCategory_Nil)
qed

text \<open>
  Claim C8. When \<^verbatim>\<open>renderAll\<close> is called with an input whose grouping is empty, on a
  page that has the host element, the content of the host element becomes the
  placeholder and nothing else, whatever it was before, and no animation frame is
  requested: the function returns at once.
\<close>

theorem render_empty:
  assumes "groupByCategory P fs = Inr []" and "app pg = Some old"
  shows \<open>renderAll P fs pg =
           Inr \<lparr>app = Some ''<p class="empty-state">No documents found.</p>'',
                animationFrames = animationFrames pg\<rparr>\<close>
  using assms by (simp add: renderAll_def)

theorem render_empty_witness:
  \<open>groupByCategory utc_engine [] = Inr [] \<and>
   app stale_page = Some ''<section class="category">stale</section>'' \<and>
   renderAll utc_engine [] stale_page =
     Inr \<lparr>app = Some ''<p class="empty-state">No documents found.</p>'',
          animationFrames = [StaggerCards]\<rparr>\<close>
proof -
  have g: "groupByCategory utc_engine [] = Inr []"
    by (rule groupByCategory_Nil)
  have a: \<open>app stale_page = Some ''<section class="category">stale</section>''\<close>
    by (simp add: stale_page_def)
  have "animationFrames stale_page = [StaggerCards]"
    by (simp add: stale_page_def)
  then show ?thesis
    using render_empty [OF g a] g a by simp
qed

section \<open>Debouncing\<close>

























end
